theory Spec2Isabelle
  imports Complex_Main
begin

section \<open>JavaScript numbers\<close>

text \<open>
  The program (\<^verbatim>\<open>src/app/page.tsx\<close>) computes with JavaScript numbers. A number is
  modelled as a finite value or one of the three special values the program can meet:
  the literal \<^verbatim>\<open>Infinity\<close> (the optimizer's starting cost), \<^verbatim>\<open>-Infinity\<close>
  (\<^verbatim>\<open>Math.max()\<close> of no arguments) and \<^verbatim>\<open>NaN\<close> (\<^verbatim>\<open>0 / 0\<close>). Finite values are
  reals and the operations on them are exact: the rounding of IEEE-754 doubles, overflow
  to infinity and the sign of zero are not part of this model. Rounding is modelled
  separately, in the section on double-precision arithmetic.
\<close>

datatype jsnum = Fin real | PInf | NInf | NaN

fun is_fin :: "jsnum \<Rightarrow> bool" where
  "is_fin (Fin _) = True"
| "is_fin _ = False"

fun the_fin :: "jsnum \<Rightarrow> real" where
  "the_fin (Fin x) = x"
| "the_fin _ = 0"

text \<open>\<^verbatim>\<open>a + b\<close>\<close>

fun js_add :: "jsnum \<Rightarrow> jsnum \<Rightarrow> jsnum" where
  "js_add (Fin a) (Fin b) = Fin (a + b)"
| "js_add NaN _ = NaN"
| "js_add _ NaN = NaN"
| "js_add PInf NInf = NaN"
| "js_add NInf PInf = NaN"
| "js_add PInf _ = PInf"
| "js_add _ PInf = PInf"
| "js_add NInf _ = NInf"
| "js_add _ NInf = NInf"

text \<open>\<^verbatim>\<open>-a\<close>\<close>

fun js_neg :: "jsnum \<Rightarrow> jsnum" where
  "js_neg (Fin a) = Fin (- a)"
| "js_neg PInf = NInf"
| "js_neg NInf = PInf"
| "js_neg NaN = NaN"

text \<open>\<^verbatim>\<open>a - b\<close>\<close>

definition js_sub :: "jsnum \<Rightarrow> jsnum \<Rightarrow> jsnum" where
  "js_sub a b = js_add a (js_neg b)"

text \<open>The sign of a number that is not \<^verbatim>\<open>NaN\<close>: \<open>-1\<close>, \<open>0\<close> or \<open>1\<close>.\<close>

fun js_sign :: "jsnum \<Rightarrow> int" where
  "js_sign (Fin a) = (if a < 0 then - 1 else if a = 0 then 0 else 1)"
| "js_sign PInf = 1"
| "js_sign NInf = - 1"
| "js_sign NaN = 0"

definition signed_inf :: "int \<Rightarrow> jsnum" where
  "signed_inf s = (if s < 0 then NInf else if s = 0 then NaN else PInf)"

text \<open>\<^verbatim>\<open>a * b\<close>: infinity times zero is \<^verbatim>\<open>NaN\<close>.\<close>

fun js_mul :: "jsnum \<Rightarrow> jsnum \<Rightarrow> jsnum" where
  "js_mul (Fin a) (Fin b) = Fin (a * b)"
| "js_mul NaN _ = NaN"
| "js_mul _ NaN = NaN"
| "js_mul a b = signed_inf (js_sign a * js_sign b)"

text \<open>
  \<^verbatim>\<open>a / b\<close>: a finite value divided by zero is an infinity of the dividend's sign,
  \<^verbatim>\<open>0 / 0\<close> and infinity over infinity are \<^verbatim>\<open>NaN\<close>.
\<close>

fun js_div :: "jsnum \<Rightarrow> jsnum \<Rightarrow> jsnum" where
  "js_div (Fin a) (Fin b) = (if b = 0 then signed_inf (js_sign (Fin a)) else Fin (a / b))"
| "js_div NaN _ = NaN"
| "js_div _ NaN = NaN"
| "js_div (Fin a) _ = Fin 0"
| "js_div a (Fin b) = signed_inf (js_sign a * (if b < 0 then - 1 else 1))"
| "js_div _ _ = NaN"

text \<open>\<^verbatim>\<open>a < b\<close>, \<^verbatim>\<open>a <= b\<close>, \<^verbatim>\<open>a > b\<close>, \<^verbatim>\<open>a >= b\<close>: every comparison with \<^verbatim>\<open>NaN\<close> is false.\<close>

fun js_lt :: "jsnum \<Rightarrow> jsnum \<Rightarrow> bool" where
  "js_lt (Fin a) (Fin b) = (a < b)"
| "js_lt NaN _ = False"
| "js_lt _ NaN = False"
| "js_lt _ NInf = False"
| "js_lt PInf _ = False"
| "js_lt _ _ = True"

fun js_le :: "jsnum \<Rightarrow> jsnum \<Rightarrow> bool" where
  "js_le (Fin a) (Fin b) = (a \<le> b)"
| "js_le NaN _ = False"
| "js_le _ NaN = False"
| "js_le NInf _ = True"
| "js_le _ PInf = True"
| "js_le _ _ = False"

definition js_gt :: "jsnum \<Rightarrow> jsnum \<Rightarrow> bool" where
  "js_gt a b = js_lt b a"

definition js_ge :: "jsnum \<Rightarrow> jsnum \<Rightarrow> bool" where
  "js_ge a b = js_le b a"

text \<open>
  \<^verbatim>\<open>Math.max(...xs)\<close> and \<^verbatim>\<open>Math.min(...xs)\<close>: \<^verbatim>\<open>NaN\<close> if any argument is \<^verbatim>\<open>NaN\<close>,
  \<^verbatim>\<open>-Infinity\<close> and \<^verbatim>\<open>Infinity\<close> for no arguments.
\<close>

fun js_max2 :: "jsnum \<Rightarrow> jsnum \<Rightarrow> jsnum" where
  "js_max2 NaN _ = NaN"
| "js_max2 _ NaN = NaN"
| "js_max2 a b = (if js_lt a b then b else a)"

fun js_min2 :: "jsnum \<Rightarrow> jsnum \<Rightarrow> jsnum" where
  "js_min2 NaN _ = NaN"
| "js_min2 _ NaN = NaN"
| "js_min2 a b = (if js_lt b a then b else a)"

definition Math_max :: "jsnum list \<Rightarrow> jsnum" where
  "Math_max xs = foldl js_max2 NInf xs"

definition Math_min :: "jsnum list \<Rightarrow> jsnum" where
  "Math_min xs = foldl js_min2 PInf xs"

text \<open>\<^verbatim>\<open>Math.round(a)\<close>: the nearest integer, a half rounds up.\<close>

fun Math_round :: "jsnum \<Rightarrow> jsnum" where
  "Math_round (Fin a) = Fin (of_int \<lfloor>a + 1 / 2\<rfloor>)"
| "Math_round a = a"

section \<open>Cost model\<close>

text \<open>
  The functions of the component close over \<^verbatim>\<open>maxDemands\<close> and the state variables
  \<^verbatim>\<open>batteryCapacity\<close> and \<^verbatim>\<open>contractedCapacity\<close>; here these are parameters. The two
  rates are the literals of \<^verbatim>\<open>calculateMonthlyCharge\<close>.
  This section has the cost model in exact arithmetic; the section on double-precision
  arithmetic has it again with every operation rounded, as the optimizer uses it.
\<close>

definition maxDemands :: "jsnum list" where
  "maxDemands = map Fin [3114, 2736, 1467, 3894, 3085, 3077, 3113, 3098]"

definition effectiveDemands :: "jsnum list \<Rightarrow> jsnum \<Rightarrow> jsnum list" where
  "effectiveDemands demands batteryCapacity =
     map (\<lambda>demand. Math_max [Fin 0, js_sub demand batteryCapacity]) demands"

definition minEffectiveDemand :: "jsnum list \<Rightarrow> jsnum \<Rightarrow> jsnum" where
  "minEffectiveDemand demands batteryCapacity = Math_min (effectiveDemands demands batteryCapacity)"

definition maxEffectiveDemand :: "jsnum list \<Rightarrow> jsnum \<Rightarrow> jsnum" where
  "maxEffectiveDemand demands batteryCapacity = Math_max (effectiveDemands demands batteryCapacity)"

definition calculateMonthlyCharge :: "jsnum \<Rightarrow> jsnum \<Rightarrow> jsnum" where
  "calculateMonthlyCharge effectiveDemand capacity =
     (let contractedCharge = js_mul capacity (Fin 16.37);
          exceedance = Math_max [Fin 0, js_sub effectiveDemand capacity];
          uncontractedCharge = js_mul exceedance (Fin 24.56)
      in js_add contractedCharge uncontractedCharge)"

text \<open>\<^verbatim>\<open>xs.reduce((sum, c) => sum + c, 0)\<close>\<close>

definition reduce_sum :: "jsnum list \<Rightarrow> jsnum" where
  "reduce_sum xs = foldl js_add (Fin 0) xs"

definition calculateTotalCharge :: "jsnum list \<Rightarrow> jsnum \<Rightarrow> jsnum \<Rightarrow> jsnum" where
  "calculateTotalCharge demands batteryCapacity capacity =
     reduce_sum (map (\<lambda>effDemand. calculateMonthlyCharge effDemand capacity)
                     (effectiveDemands demands batteryCapacity))"

section \<open>Double-precision arithmetic\<close>

text \<open>
  A JavaScript number is an IEEE-754 binary64 value, and every arithmetic operation
  returns the exact result rounded to the nearest binary64 value, a tie going to the even
  significand. \<open>f64\<close> is this rounding on the reals for the normal range: the significand
  has 53 bits, and overflow and subnormal numbers are left out (neither occurs in the runs
  evaluated below). A decimal literal of the program denotes its rounded value, so
  \<^verbatim>\<open>16.37\<close> is \<open>f64 16.37\<close>. The functions with the suffix \<open>_f64\<close> are the functions of
  the cost model and of the derived figures on finite numbers, with each operation
  rounded.
\<close>

text \<open>\<open>ilog2 n\<close> is \<open>\<lfloor>log\<^sub>2 n\<rfloor>\<close> for \<open>n \<ge> 1\<close>.\<close>

function ilog2 :: "int \<Rightarrow> int" where
  "ilog2 n = (if n < 2 then 0 else 1 + ilog2 (n div 2))"
  by pat_completeness auto
termination
  by (relation "measure nat") auto

declare ilog2.simps [simp del]

text \<open>The binary exponent of \<open>a > 0\<close>: the \<open>e\<close> with \<open>2\<^sup>e \<le> a < 2\<^sup>e\<^sup>+\<^sup>1\<close>.\<close>

definition binade :: "real \<Rightarrow> int" where
  "binade a =
     (if 1 \<le> a then ilog2 \<lfloor>a\<rfloor>
      else let k = ilog2 \<lfloor>1 / a\<rfloor> in if a * 2 ^ nat k = 1 then - k else - (k + 1))"

text \<open>\<open>scale2 y k\<close> is \<open>y * 2\<^sup>k\<close>.\<close>

definition scale2 :: "real \<Rightarrow> int \<Rightarrow> real" where
  "scale2 y k = (if 0 \<le> k then y * 2 ^ nat k else y / 2 ^ nat (- k))"

text \<open>The nearest integer, a tie going to the even one.\<close>

definition round_half_even :: "real \<Rightarrow> int" where
  "round_half_even q =
     (let n = \<lfloor>q\<rfloor>; r = q - of_int n
      in if r < 1 / 2 then n else if 1 / 2 < r then n + 1 else if even n then n else n + 1)"

definition f64 :: "real \<Rightarrow> real" where
  "f64 x =
     (if x = 0 then 0
      else let e = binade \<bar>x\<bar>
           in sgn x * scale2 (of_int (round_half_even (scale2 \<bar>x\<bar> (52 - e)))) (e - 52))"

definition f64_add :: "real \<Rightarrow> real \<Rightarrow> real" where
  "f64_add a b = f64 (a + b)"

definition f64_sub :: "real \<Rightarrow> real \<Rightarrow> real" where
  "f64_sub a b = f64 (a - b)"

definition f64_mul :: "real \<Rightarrow> real \<Rightarrow> real" where
  "f64_mul a b = f64 (a * b)"

definition calculateMonthlyCharge_f64 :: "real \<Rightarrow> real \<Rightarrow> real" where
  "calculateMonthlyCharge_f64 effectiveDemand capacity =
     (let contractedCharge = f64_mul capacity (f64 16.37);
          exceedance = max 0 (f64_sub effectiveDemand capacity);
          uncontractedCharge = f64_mul exceedance (f64 24.56)
      in f64_add contractedCharge uncontractedCharge)"

definition reduce_sum_f64 :: "real list \<Rightarrow> real" where
  "reduce_sum_f64 xs = foldl f64_add 0 xs"

definition effectiveDemands_f64 :: "real list \<Rightarrow> real \<Rightarrow> real list" where
  "effectiveDemands_f64 demands battery = map (\<lambda>demand. max 0 (f64_sub demand battery)) demands"

definition monthlyCharges_f64 :: "real list \<Rightarrow> real \<Rightarrow> real \<Rightarrow> real list" where
  "monthlyCharges_f64 demands battery contracted =
     map (\<lambda>effDemand. calculateMonthlyCharge_f64 effDemand contracted)
         (effectiveDemands_f64 demands battery)"

definition totalCharge_f64 :: "real list \<Rightarrow> real \<Rightarrow> real \<Rightarrow> real" where
  "totalCharge_f64 demands battery contracted =
     reduce_sum_f64 (monthlyCharges_f64 demands battery contracted)"

definition originalCharges_f64 :: "real list \<Rightarrow> real list" where
  "originalCharges_f64 demands = map (\<lambda>demand. calculateMonthlyCharge_f64 demand 3100) demands"

definition totalOriginalCharge_f64 :: "real list \<Rightarrow> real" where
  "totalOriginalCharge_f64 demands = reduce_sum_f64 (originalCharges_f64 demands)"




text \<open>
  The binary64 value of a real, with the two ends of the range: below \<open>2\<^bsup>-1022\<^esup>\<close> the
  values are the multiples of \<open>2\<^bsup>-1074\<^esup>\<close> (subnormal numbers), and a rounded magnitude
  of \<open>2\<^bsup>1024\<^esup>\<close> or more is an infinity.
\<close>

definition round64 :: "real \<Rightarrow> jsnum" where
  "round64 x =
     (let y = (if \<bar>x\<bar> < scale2 1 (- 1022)
               then sgn x * scale2 (of_int (round_half_even (scale2 \<bar>x\<bar> 1074))) (- 1074)
               else f64 x)
      in if 2 ^ 1024 \<le> \<bar>y\<bar> then (if 0 < x then PInf else NInf) else Fin y)"

text \<open>
  The arithmetic of the program on all numbers: the result of the exact operation,
  rounded when it is finite.
\<close>

fun round_js :: "jsnum \<Rightarrow> jsnum" where
  "round_js (Fin x) = round64 x"
| "round_js a = a"

definition add_b64 :: "jsnum \<Rightarrow> jsnum \<Rightarrow> jsnum" where
  "add_b64 a b = round_js (js_add a b)"

definition sub_b64 :: "jsnum \<Rightarrow> jsnum \<Rightarrow> jsnum" where
  "sub_b64 a b = round_js (js_sub a b)"

definition mul_b64 :: "jsnum \<Rightarrow> jsnum \<Rightarrow> jsnum" where
  "mul_b64 a b = round_js (js_mul a b)"

text \<open>
  The cost model as the program computes it, on all numbers and with every operation
  rounded: the total charges that the optimizer compares.
\<close>

definition effectiveDemands_b64 :: "jsnum list \<Rightarrow> jsnum \<Rightarrow> jsnum list" where
  "effectiveDemands_b64 demands batteryCapacity =
     map (\<lambda>demand. Math_max [Fin 0, sub_b64 demand batteryCapacity]) demands"

definition calculateMonthlyCharge_b64 :: "jsnum \<Rightarrow> jsnum \<Rightarrow> jsnum" where
  "calculateMonthlyCharge_b64 effectiveDemand capacity =
     (let contractedCharge = mul_b64 capacity (round64 16.37);
          exceedance = Math_max [Fin 0, sub_b64 effectiveDemand capacity];
          uncontractedCharge = mul_b64 exceedance (round64 24.56)
      in add_b64 contractedCharge uncontractedCharge)"

definition calculateTotalCharge_b64 :: "jsnum list \<Rightarrow> jsnum \<Rightarrow> jsnum \<Rightarrow> jsnum" where
  "calculateTotalCharge_b64 demands batteryCapacity capacity =
     foldl add_b64 (Fin 0)
       (map (\<lambda>effDemand. calculateMonthlyCharge_b64 effDemand capacity)
            (effectiveDemands_b64 demands batteryCapacity))"

section \<open>Optimizer\<close>

text \<open>
  \<^verbatim>\<open>findOptimalCapacity\<close>: the \<^verbatim>\<open>for\<close> loop over \<^verbatim>\<open>capacity = 1000, 1010, ..., 4000\<close>,
  with the loop variables \<^verbatim>\<open>optimalCapacity\<close> and \<^verbatim>\<open>minCost\<close> as arguments. The counter
  only takes integer values, which binary64 arithmetic represents and adds exactly, and is
  an \<open>int\<close>; it is passed to the cost model as a number. The total charge of a candidate
  is the one the program computes, in binary64 arithmetic.
\<close>

function findOptimalCapacity_loop :: "jsnum list \<Rightarrow> jsnum \<Rightarrow> int \<Rightarrow> int \<Rightarrow> jsnum \<Rightarrow> int" where
  "findOptimalCapacity_loop demands battery capacity optimalCapacity minCost =
     (if capacity \<le> 4000 then
        (if js_lt (calculateTotalCharge_b64 demands battery (Fin (of_int capacity))) minCost
         then findOptimalCapacity_loop demands battery (capacity + 10) capacity
                (calculateTotalCharge_b64 demands battery (Fin (of_int capacity)))
         else findOptimalCapacity_loop demands battery (capacity + 10) optimalCapacity minCost)
      else optimalCapacity)"
  by pat_completeness auto
termination
  by (relation "measure (\<lambda>(demands, battery, capacity, optimalCapacity, minCost). nat (4010 - capacity))")
     auto

declare findOptimalCapacity_loop.simps [simp del]

definition findOptimalCapacity :: "jsnum list \<Rightarrow> jsnum \<Rightarrow> int" where
  "findOptimalCapacity demands battery = findOptimalCapacity_loop demands battery 1000 0 PInf"

text \<open>The total charge that the optimizer computes for a candidate.\<close>

definition candidateCost :: "jsnum list \<Rightarrow> jsnum \<Rightarrow> int \<Rightarrow> jsnum" where
  "candidateCost demands battery c = calculateTotalCharge_b64 demands battery (Fin (of_int c))"

text \<open>The candidates of the optimizer's scan: \<open>1000, 1010, ..., 4000\<close>.\<close>

definition searchGrid :: "int set" where
  "searchGrid = (\<lambda>k. 1000 + 10 * k) ` {0..300}"

text \<open>
  The two states of the scan before a candidate \<open>capacity\<close>: no earlier candidate had a
  total charge below \<^verbatim>\<open>Infinity\<close>; or \<open>opt\<close> is the first of the earlier candidates with the
  least total charge.
\<close>

definition noneBelow :: "jsnum list \<Rightarrow> jsnum \<Rightarrow> int \<Rightarrow> bool" where
  "noneBelow demands battery capacity \<longleftrightarrow>
     (\<forall>c\<in>searchGrid. c < capacity \<longrightarrow> \<not> js_lt (candidateCost demands battery c) PInf)"

definition bestBelow :: "jsnum list \<Rightarrow> jsnum \<Rightarrow> int \<Rightarrow> int \<Rightarrow> bool" where
  "bestBelow demands battery capacity opt \<longleftrightarrow>
     opt \<in> searchGrid \<and> opt < capacity \<and> js_lt (candidateCost demands battery opt) PInf \<and>
     (\<forall>c\<in>searchGrid. c < capacity \<longrightarrow>
        (candidateCost demands battery c \<noteq> NaN \<longrightarrow>
           js_le (candidateCost demands battery opt) (candidateCost demands battery c)) \<and>
        (candidateCost demands battery c = candidateCost demands battery opt \<longrightarrow> opt \<le> c))"

section \<open>Derived figures\<close>

definition monthlyCharges :: "jsnum list \<Rightarrow> jsnum \<Rightarrow> jsnum \<Rightarrow> jsnum list" where
  "monthlyCharges demands battery contracted =
     map (\<lambda>effDemand. calculateMonthlyCharge effDemand contracted)
         (effectiveDemands demands battery)"

definition totalCharge :: "jsnum list \<Rightarrow> jsnum \<Rightarrow> jsnum \<Rightarrow> jsnum" where
  "totalCharge demands battery contracted = reduce_sum (monthlyCharges demands battery contracted)"

text \<open>The original scenario: no battery, capacity 3100.\<close>

definition originalCharges :: "jsnum list \<Rightarrow> jsnum list" where
  "originalCharges demands = map (\<lambda>demand. calculateMonthlyCharge demand (Fin 3100)) demands"

definition totalOriginalCharge :: "jsnum list \<Rightarrow> jsnum" where
  "totalOriginalCharge demands = reduce_sum (originalCharges demands)"

definition savings :: "jsnum list \<Rightarrow> jsnum \<Rightarrow> jsnum \<Rightarrow> jsnum" where
  "savings demands battery contracted =
     js_sub (totalOriginalCharge demands) (totalCharge demands battery contracted)"

definition isPositiveSavings :: "jsnum list \<Rightarrow> jsnum \<Rightarrow> jsnum \<Rightarrow> bool" where
  "isPositiveSavings demands battery contracted = js_ge (savings demands battery contracted) (Fin 0)"

text \<open>
  \<^verbatim>\<open>negativeReason\<close> starts as the "too low" text and is reassigned by an
  \<^verbatim>\<open>if ... else if\<close>; the second branch assigns the starting text again.
\<close>

definition tooLowText :: string where
  "tooLowText = ''the contracted capacity may be set too low relative to your effective demands, causing higher exceedance penalties.''"

definition tooHighText :: string where
  "tooHighText = ''the contracted capacity may be set too high relative to your actual usage, causing overpayment in fixed charges.''"

definition batteryText :: string where
  "batteryText = ''the battery helps reduce your peak demand each month, thus reducing penalties for exceedance.''"

definition negativeReason :: "jsnum list \<Rightarrow> jsnum \<Rightarrow> jsnum \<Rightarrow> string" where
  "negativeReason demands battery contracted =
     (if js_gt contracted (maxEffectiveDemand demands battery) then tooHighText
      else if js_lt contracted (minEffectiveDemand demands battery) then tooLowText
      else tooLowText)"

text \<open>The reason rendered after "because": \<^verbatim>\<open>isPositiveSavings ? '...' : negativeReason\<close>.\<close>

definition rationale :: "jsnum list \<Rightarrow> jsnum \<Rightarrow> jsnum \<Rightarrow> string" where
  "rationale demands battery contracted =
     (if isPositiveSavings demands battery contracted then batteryText
      else negativeReason demands battery contracted)"


text \<open>The exceedance column of the monthly table (\<^verbatim>\<open>Math.max(0, effectiveDemand - contractedCapacity)\<close>).\<close>

definition exceedance :: "jsnum \<Rightarrow> jsnum \<Rightarrow> jsnum" where
  "exceedance effectiveDemand contracted = Math_max [Fin 0, js_sub effectiveDemand contracted]"

section \<open>State and its mutators\<close>

text \<open>
  The state variables of the component that the mutators below read or write. The
  explanation text, the hover flag and the client flag only affect rendering.
\<close>

record ModelState =
  batteryCapacity :: jsnum
  contractedCapacity :: jsnum
  isDragging :: bool

definition initialState :: ModelState where
  "initialState = \<lparr>batteryCapacity = Fin 400, contractedCapacity = Fin 3100, isDragging = False\<rparr>"

text \<open>
  The \<^verbatim>\<open>onChange\<close> handlers of the two inputs store \<^verbatim>\<open>Number(e.target.value)\<close>; the
  argument \<open>v\<close> is that number. The \<^verbatim>\<open>min\<close>, \<^verbatim>\<open>max\<close> and \<^verbatim>\<open>step\<close> attributes of the inputs
  do not change the value the handler receives.
\<close>

definition onChangeBatteryCapacity :: "ModelState \<Rightarrow> jsnum \<Rightarrow> ModelState" where
  "onChangeBatteryCapacity st v = st\<lparr>batteryCapacity := v\<rparr>"

definition onChangeContractedCapacity :: "ModelState \<Rightarrow> jsnum \<Rightarrow> ModelState" where
  "onChangeContractedCapacity st v = st\<lparr>contractedCapacity := v\<rparr>"

definition handleSetOptimalCapacity :: "jsnum list \<Rightarrow> ModelState \<Rightarrow> ModelState" where
  "handleSetOptimalCapacity demands st =
     st\<lparr>contractedCapacity := Fin (of_int (findOptimalCapacity demands (batteryCapacity st)))\<rparr>"

definition onMouseDown :: "ModelState \<Rightarrow> ModelState" where
  "onMouseDown st = st\<lparr>isDragging := True\<rparr>"

definition handleMouseUp :: "ModelState \<Rightarrow> ModelState" where
  "handleMouseUp st = st\<lparr>isDragging := False\<rparr>"

text \<open>
  \<^verbatim>\<open>handleMouseMove\<close>, for an attached chart element whose bounding rectangle has the
  given \<^verbatim>\<open>top\<close> and \<^verbatim>\<open>height\<close>, and an event with the given \<^verbatim>\<open>clientY\<close>.
\<close>

definition handleMouseMove :: "ModelState \<Rightarrow> jsnum \<Rightarrow> jsnum \<Rightarrow> jsnum \<Rightarrow> ModelState" where
  "handleMouseMove st chartTop chartHeight clientY =
     (if isDragging st then
        (let yPixel = js_sub clientY chartTop in
         if js_ge yPixel (Fin 0) \<and> js_le yPixel chartHeight then
           (let yValue = js_mul (js_sub (Fin 1) (js_div yPixel chartHeight)) (Fin 4000);
                newCapacity = js_mul (Math_round (js_div yValue (Fin 10))) (Fin 10)
            in st\<lparr>contractedCapacity := Math_max [Fin 1000, Math_min [Fin 4000, newCapacity]]\<rparr>)
         else st)
      else st)"

text \<open>The state after the mouse button went down on the chart in the initial state.\<close>

definition draggingState :: ModelState where
  "draggingState = onMouseDown initialState"

text \<open>
  The bounds and the step that the data model asks of the two capacities: the battery
  capacity in \<open>[0, 1000]\<close>, the contracted capacity in \<open>[1000, 4000]\<close>, both multiples
  of 10. These are also the \<^verbatim>\<open>min\<close>, \<^verbatim>\<open>max\<close> and \<^verbatim>\<open>step\<close> attributes of the two inputs.
\<close>

fun isMultipleOf10 :: "jsnum \<Rightarrow> bool" where
  "isMultipleOf10 (Fin a) = (a = 10 * of_int \<lfloor>a / 10\<rfloor>)"
| "isMultipleOf10 _ = False"

definition boundsAndStepInvariant :: "ModelState \<Rightarrow> bool" where
  "boundsAndStepInvariant st \<longleftrightarrow>
     js_le (Fin 0) (batteryCapacity st) \<and> js_le (batteryCapacity st) (Fin 1000) \<and>
     isMultipleOf10 (batteryCapacity st) \<and>
     js_le (Fin 1000) (contractedCapacity st) \<and> js_le (contractedCapacity st) (Fin 4000) \<and>
     isMultipleOf10 (contractedCapacity st)"

lemmas f64_eval = f64_def binade_def scale2_def round_half_even_def ilog2.simps Let_def

section \<open>Finite numbers\<close>

lemma searchGrid_iff: "c \<in> searchGrid \<longleftrightarrow> 1000 \<le> c \<and> c \<le> 4000 \<and> 10 dvd c"
proof
  assume "c \<in> searchGrid"
  then show "1000 \<le> c \<and> c \<le> 4000 \<and> 10 dvd c"
    by (auto simp: searchGrid_def)
next
  assume a: "1000 \<le> c \<and> c \<le> 4000 \<and> 10 dvd c"
  then obtain k where k: "c = 10 * k" by (auto elim: dvdE)
  with a have "c = 1000 + 10 * (k - 100)" "0 \<le> k - 100" "k - 100 \<le> 300" by auto
  then show "c \<in> searchGrid"
    unfolding searchGrid_def by (intro image_eqI[where x = "k - 100"]) auto
qed

lemma js_sub_Fin [simp]: "js_sub (Fin a) (Fin b) = Fin (a - b)"
  by (simp add: js_sub_def)

lemma Math_max_pair [simp]: "Math_max [Fin a, Fin b] = Fin (max a b)"
  by (simp add: Math_max_def max_def)

lemma Math_min_pair [simp]: "Math_min [Fin a, Fin b] = Fin (min a b)"
  by (simp add: Math_min_def min_def)

lemma calculateMonthlyCharge_Fin:
  "calculateMonthlyCharge (Fin e) (Fin c) = Fin (c * 16.37 + max 0 (e - c) * 24.56)"
  by (simp add: calculateMonthlyCharge_def)



lemma foldl_js_add_Fin: "foldl js_add (Fin a) (map Fin rs) = Fin (a + sum_list rs)"
  by (induction rs arbitrary: a) (auto simp: algebra_simps)

lemma reduce_sum_Fin: "reduce_sum (map Fin rs) = Fin (sum_list rs)"
  by (simp add: reduce_sum_def foldl_js_add_Fin)

lemma effectiveDemands_Fin:
  "effectiveDemands (map Fin ds) (Fin b) = map Fin (map (\<lambda>d. max 0 (d - b)) ds)"
  by (simp add: effectiveDemands_def)

lemma calculateTotalCharge_Fin:
  "calculateTotalCharge (map Fin ds) (Fin b) (Fin c) =
     Fin (\<Sum>d\<leftarrow>ds. c * 16.37 + max 0 (max 0 (d - b) - c) * 24.56)"
proof -
  have "map (\<lambda>effDemand. calculateMonthlyCharge effDemand (Fin c)) (effectiveDemands (map Fin ds) (Fin b))
      = map Fin (map (\<lambda>d. c * 16.37 + max 0 (max 0 (d - b) - c) * 24.56) ds)"
    by (simp add: effectiveDemands_Fin calculateMonthlyCharge_Fin comp_def)
  then show ?thesis
    unfolding calculateTotalCharge_def by (simp only: reduce_sum_Fin)
qed

section \<open>The rounding is to the nearest binary64 value\<close>

lemma ilog2_bounds:
  "1 \<le> n \<Longrightarrow> 0 \<le> ilog2 n \<and> 2 ^ nat (ilog2 n) \<le> n \<and> n < 2 * 2 ^ nat (ilog2 n)"
proof (induction n rule: ilog2.induct)
  case (1 n)
  show ?case
  proof (cases "n < 2")
    case True
    with "1.prems" have "n = 1" by simp
    then show ?thesis by (simp add: ilog2.simps)
  next
    case False
    then have m: "1 \<le> n div 2" by simp
    from "1.IH"[OF False m] have
      k0: "0 \<le> ilog2 (n div 2)" and lo: "2 ^ nat (ilog2 (n div 2)) \<le> n div 2"
      and hi: "n div 2 < 2 * 2 ^ nat (ilog2 (n div 2))"
      by simp_all
    have e: "ilog2 n = 1 + ilog2 (n div 2)"
      using False by (subst ilog2.simps) simp
    have p: "(2::int) ^ nat (ilog2 n) = 2 * 2 ^ nat (ilog2 (n div 2))"
      using k0 by (simp add: e nat_add_distrib)
    from lo have "2 * 2 ^ nat (ilog2 (n div 2)) \<le> n" by linarith
    moreover from hi have "n < 2 * (2 * 2 ^ nat (ilog2 (n div 2)))" by linarith
    ultimately show ?thesis using k0 by (simp add: p) (simp add: e)
  qed
qed

lemma scale2_int: "scale2 y (int n) = y * 2 ^ n"
  by (simp add: scale2_def)

lemma scale2_minus_int: "scale2 y (- int n) = y / 2 ^ n"
  by (cases n) (simp_all add: scale2_def nat_add_distrib)

lemma scale2_one_pos: "0 < scale2 1 k"
  by (simp add: scale2_def)

text \<open>
  The exponent that \<open>binade\<close> returns is the binary exponent of its argument.
\<close>

lemma binade_bounds:
  assumes "0 < a"
  shows "scale2 1 (binade a) \<le> a \<and> a < scale2 1 (binade a + 1)"
proof (cases "1 \<le> a")
  case True
  then have f: "1 \<le> \<lfloor>a\<rfloor>" by simp
  define k where "k = nat (ilog2 \<lfloor>a\<rfloor>)"
  from ilog2_bounds[OF f] have k0: "0 \<le> ilog2 \<lfloor>a\<rfloor>" and lo: "2 ^ k \<le> \<lfloor>a\<rfloor>" and hi: "\<lfloor>a\<rfloor> < 2 * 2 ^ k"
    by (simp_all add: k_def)
  have b: "binade a = int k" using True k0 by (simp add: binade_def k_def)
  from lo have "real_of_int (2 ^ k) \<le> of_int \<lfloor>a\<rfloor>" by (simp only: of_int_le_iff)
  then have l: "2 ^ k \<le> a" by (simp add: le_floor_iff)
  from hi have "\<lfloor>a\<rfloor> + 1 \<le> 2 * 2 ^ k" by simp
  then have "real_of_int (\<lfloor>a\<rfloor> + 1) \<le> of_int (2 * 2 ^ k)" by (simp only: of_int_le_iff)
  then have "real_of_int \<lfloor>a\<rfloor> + 1 \<le> 2 * 2 ^ k" by simp
  moreover have "a < real_of_int \<lfloor>a\<rfloor> + 1" by linarith
  ultimately have h: "a < 2 * 2 ^ k" by linarith
  show ?thesis using l h by (simp add: b scale2_def nat_add_distrib)
next
  case False
  with assms have inv: "1 < 1 / a" by simp
  then have f: "1 \<le> \<lfloor>1 / a\<rfloor>" by simp
  define k where "k = nat (ilog2 \<lfloor>1 / a\<rfloor>)"
  from ilog2_bounds[OF f] have k0: "0 \<le> ilog2 \<lfloor>1 / a\<rfloor>" and lo: "2 ^ k \<le> \<lfloor>1 / a\<rfloor>"
    and hi: "\<lfloor>1 / a\<rfloor> < 2 * 2 ^ k"
    by (simp_all add: k_def)
  have ik: "ilog2 \<lfloor>1 / a\<rfloor> = int k" using k0 by (simp add: k_def)
  from lo have "real_of_int (2 ^ k) \<le> of_int \<lfloor>1 / a\<rfloor>" by (simp only: of_int_le_iff)
  then have "2 ^ k \<le> 1 / a" by (simp add: le_floor_iff)
  with assms have l: "a * 2 ^ k \<le> 1" by (simp add: field_simps)
  from hi have "\<lfloor>1 / a\<rfloor> + 1 \<le> 2 * 2 ^ k" by simp
  then have "real_of_int (\<lfloor>1 / a\<rfloor> + 1) \<le> of_int (2 * 2 ^ k)" by (simp only: of_int_le_iff)
  then have "real_of_int \<lfloor>1 / a\<rfloor> + 1 \<le> 2 * 2 ^ k" by simp
  moreover have "1 / a < real_of_int \<lfloor>1 / a\<rfloor> + 1" by linarith
  ultimately have "1 / a < 2 * 2 ^ k" by linarith
  with assms have h: "1 < a * (2 * 2 ^ k)" by (simp add: field_simps)
  show ?thesis
  proof (cases "a * 2 ^ k = 1")
    case True
    with False have kpos: "k \<noteq> 0" by (cases k) auto
    then obtain j where j: "k = Suc j" by (cases k) auto
    have b: "binade a = - int k" using False True by (simp add: binade_def ik Let_def)
    from True have a: "a = 1 / 2 ^ k" by (simp add: field_simps)
    have s1: "scale2 1 (binade a) = 1 / 2 ^ k"
      unfolding b by (rule scale2_minus_int)
    have "binade a + 1 = - int j" unfolding b j by simp
    then have s2: "scale2 1 (binade a + 1) = 1 / 2 ^ j"
      by (simp only: scale2_minus_int)
    have "a < 1 / 2 ^ j" unfolding a j by (simp add: field_simps)
    with a show ?thesis unfolding s1 s2 by simp
  next
    case ne: False
    have b: "binade a = - (int k + 1)" using False ne by (simp add: binade_def ik Let_def)
    from l ne have lt: "a * 2 ^ k < 1" by simp
    have lo': "1 / (2 * 2 ^ k) < a" using h by (simp add: field_simps)
    have hi': "a < 1 / 2 ^ k" using lt by (simp add: field_simps)
    have "binade a = - int (Suc k)" unfolding b by simp
    then have s1: "scale2 1 (binade a) = 1 / 2 ^ Suc k"
      by (simp only: scale2_minus_int)
    have "binade a + 1 = - int k" unfolding b by simp
    then have s2: "scale2 1 (binade a + 1) = 1 / 2 ^ k"
      by (simp only: scale2_minus_int)
    from lo' hi' show ?thesis unfolding s1 s2 by simp
  qed
qed

lemma round_half_even_error: "\<bar>of_int (round_half_even q) - q\<bar> \<le> 1 / 2"
proof -
  have "of_int \<lfloor>q\<rfloor> \<le> q" "q < of_int \<lfloor>q\<rfloor> + 1" by linarith+
  then show ?thesis
    by (auto simp: round_half_even_def Let_def)
qed

lemma round_half_even_nonneg: "0 \<le> q \<Longrightarrow> 0 \<le> round_half_even q"
  by (auto simp: round_half_even_def Let_def)

lemma scale2_mult: "scale2 y k = y * scale2 1 k"
  by (simp add: scale2_def)

lemma scale2_inverse: "scale2 1 k * scale2 1 (- k) = 1"
  by (simp add: scale2_def)

lemma scale2_powi: "scale2 y k = y * 2 powi k"
  by (simp add: scale2_def power_int_def field_simps)

lemma round_half_even_mono_bounds:
  assumes "of_int l \<le> q" and "q < of_int h"
  shows "l \<le> round_half_even q \<and> round_half_even q \<le> h"
proof -
  from assms have "l \<le> \<lfloor>q\<rfloor>" "\<lfloor>q\<rfloor> < h" by (simp_all add: le_floor_iff floor_less_iff)
  then show ?thesis by (auto simp: round_half_even_def Let_def)
qed

text \<open>
  For \<open>x \<noteq> 0\<close> with binary exponent \<open>e\<close>, \<open>f64 x\<close> is \<open>\<plusminus> m * 2\<^bsup>e - 52\<^esup>\<close> for an integer
  significand \<open>m\<close> of 53 bits (\<open>m = 2\<^sup>5\<^sup>3\<close> is the next power of two), and it is within half a
  unit in the last place of \<open>x\<close>. A tie is resolved by \<open>round_half_even\<close>.
\<close>

lemma f64_significand:
  assumes "x \<noteq> 0"
  shows "f64 x = sgn x * scale2 (of_int (round_half_even (scale2 \<bar>x\<bar> (52 - binade \<bar>x\<bar>)))) (binade \<bar>x\<bar> - 52) \<and>
         2 ^ 52 \<le> round_half_even (scale2 \<bar>x\<bar> (52 - binade \<bar>x\<bar>)) \<and>
         round_half_even (scale2 \<bar>x\<bar> (52 - binade \<bar>x\<bar>)) \<le> 2 ^ 53"
proof -
  define e where "e = binade \<bar>x\<bar>"
  define q where "q = scale2 \<bar>x\<bar> (52 - e)"
  from assms have "0 < \<bar>x\<bar>" by simp
  from binade_bounds[OF this] have lo: "2 powi e \<le> \<bar>x\<bar>" and hi: "\<bar>x\<bar> < 2 powi (e + 1)"
    by (simp_all add: e_def scale2_powi)
  have p: "(0::real) < 2 powi (52 - e)" by simp
  have "2 powi e * 2 powi (52 - e) \<le> \<bar>x\<bar> * 2 powi (52 - e)"
    using lo p by (intro mult_right_mono) simp_all
  moreover have "(2::real) powi e * 2 powi (52 - e) = 2 powi 52"
    by (simp flip: power_int_add)
  ultimately have l: "of_int (2 ^ 52) \<le> q"
    by (simp add: q_def scale2_powi)
  have "\<bar>x\<bar> * 2 powi (52 - e) < 2 powi (e + 1) * 2 powi (52 - e)"
    using hi p by (intro mult_strict_right_mono) simp_all
  moreover have "(2::real) powi (e + 1) * 2 powi (52 - e) = 2 powi 53"
    by (simp flip: power_int_add)
  ultimately have h: "q < of_int (2 ^ 53)"
    by (simp add: q_def scale2_powi)
  from round_half_even_mono_bounds[OF l h] show ?thesis
    using assms by (simp add: f64_def Let_def q_def e_def)
qed

lemma f64_error:
  assumes "x \<noteq> 0"
  shows "\<bar>f64 x - x\<bar> \<le> scale2 1 (binade \<bar>x\<bar> - 52) / 2"
proof -
  define u where "u = scale2 1 (binade \<bar>x\<bar> - 52)"
  define q where "q = scale2 \<bar>x\<bar> (52 - binade \<bar>x\<bar>)"
  have u0: "0 < u" by (simp add: u_def scale2_one_pos)
  have "scale2 1 (binade \<bar>x\<bar> - 52) * scale2 1 (- (binade \<bar>x\<bar> - 52)) = 1"
    by (rule scale2_inverse)
  then have qu: "q * u = \<bar>x\<bar>"
    by (simp add: q_def u_def scale2_mult[of "\<bar>x\<bar>"] mult.commute mult.left_commute)
  have f: "f64 x = sgn x * (of_int (round_half_even q) * u)"
    using assms by (simp add: f64_def Let_def q_def u_def scale2_mult[of "of_int _"])
  have "f64 x - x = sgn x * (of_int (round_half_even q) * u - \<bar>x\<bar>)"
    by (simp add: f algebra_simps sgn_mult_abs abs_mult_sgn)
  also have "\<dots> = sgn x * ((of_int (round_half_even q) - q) * u)"
    by (simp add: qu[symmetric] algebra_simps)
  finally have "\<bar>f64 x - x\<bar> = \<bar>of_int (round_half_even q) - q\<bar> * u"
    using assms u0 by (simp add: abs_mult abs_sgn_eq)
  also have "\<dots> \<le> (1 / 2) * u"
    using round_half_even_error[of q] u0 by (intro mult_right_mono) simp_all
  finally show ?thesis by (simp add: u_def)
qed

lemma scale2_nonneg: "0 \<le> y \<Longrightarrow> 0 \<le> scale2 y k"
  by (simp add: scale2_def)

lemma f64_nonpos: "x < 0 \<Longrightarrow> f64 x \<le> 0"
proof -
  assume x: "x < 0"
  have "0 \<le> scale2 \<bar>x\<bar> (52 - binade \<bar>x\<bar>)"
    by (rule scale2_nonneg) simp
  then have "0 \<le> round_half_even (scale2 \<bar>x\<bar> (52 - binade \<bar>x\<bar>))"
    by (rule round_half_even_nonneg)
  then have "0 \<le> scale2 (of_int (round_half_even (scale2 \<bar>x\<bar> (52 - binade \<bar>x\<bar>)))) (binade \<bar>x\<bar> - 52)"
    by (intro scale2_nonneg) simp
  with x show ?thesis
    by (simp add: f64_def Let_def)
qed

text \<open>
  Bounds on the rounded value, the sign, and the two ends of the range.
\<close>

lemma f64_lower:
  assumes "0 < x"
  shows "3 / 4 * x \<le> f64 x"
proof -
  from assms have nz: "x \<noteq> 0" and ax: "\<bar>x\<bar> = x" by simp_all
  have "scale2 1 (binade x) \<le> x"
    using binade_bounds[OF assms] by simp
  moreover have "scale2 1 (binade x - 52) = scale2 1 (binade x) / 2 ^ 52"
    by (simp add: scale2_powi power_int_diff)
  moreover have "0 < scale2 1 (binade x - 52)" by (rule scale2_one_pos)
  ultimately have "scale2 1 (binade x - 52) / 2 \<le> x / 4"
    by simp
  with f64_error[OF nz] have "\<bar>f64 x - x\<bar> \<le> x / 4"
    by (simp add: ax)
  then show ?thesis by linarith
qed

lemma round64_big:
  assumes "1 \<le> x"
  shows "round64 x = PInf \<or> (\<exists>v. round64 x = Fin v \<and> 3 / 4 * x \<le> v)"
proof -
  have "scale2 1 (- 1022) \<le> 1" by (simp add: scale2_def)
  with assms have n: "\<not> \<bar>x\<bar> < scale2 1 (- 1022)" by simp
  from assms have pos: "0 < x" by simp
  show ?thesis
    using f64_lower[OF pos] pos n by (simp add: round64_def Let_def)
qed

lemma round64_overflow:
  assumes "2 ^ 1025 \<le> x"
  shows "round64 x = PInf"
proof -
  have "(1::real) \<le> 2 ^ 1025" by simp
  with assms have x1: "1 \<le> x" by linarith
  have "scale2 1 (- 1022) \<le> 1" by (simp add: scale2_def)
  with x1 have n: "\<not> \<bar>x\<bar> < scale2 1 (- 1022)" by simp
  from x1 have pos: "0 < x" by simp
  have "3 / 4 * (2 ^ 1025 :: real) \<le> 3 / 4 * x" using assms by simp
  moreover have "(2 ^ 1024 :: real) \<le> 3 / 4 * 2 ^ 1025" by simp
  ultimately have "2 ^ 1024 \<le> f64 x" using f64_lower[OF pos] by linarith
  then have "2 ^ 1024 \<le> \<bar>f64 x\<bar>" by linarith
  with pos n show ?thesis by (simp add: round64_def Let_def del: power_numeral)
qed

lemma f64_nonneg: "0 \<le> x \<Longrightarrow> 0 \<le> f64 x"
proof (cases "x = 0")
  case True
  then show ?thesis by (simp add: f64_def)
next
  case False
  assume "0 \<le> x"
  with False have "0 < x" by simp
  from f64_lower[OF this] this show ?thesis by simp
qed

lemma round64_zero: "round64 0 = Fin 0"
  by (simp add: round64_def scale2_one_pos)

lemma round64_nonneg:
  assumes "0 \<le> x"
  shows "round64 x = PInf \<or> (\<exists>v. round64 x = Fin v)"
proof (cases "x = 0")
  case True
  then show ?thesis by (simp add: round64_zero)
next
  case False
  with assms have "0 < x" by simp
  then show ?thesis by (simp add: round64_def Let_def)
qed

lemma f64_upper:
  assumes "0 < x"
  shows "f64 x \<le> 5 / 4 * x"
proof -
  from assms have nz: "x \<noteq> 0" and ax: "\<bar>x\<bar> = x" by simp_all
  have "scale2 1 (binade x) \<le> x"
    using binade_bounds[OF assms] by simp
  moreover have "scale2 1 (binade x - 52) = scale2 1 (binade x) / 2 ^ 52"
    by (simp add: scale2_powi power_int_diff)
  moreover have "0 < scale2 1 (binade x - 52)" by (rule scale2_one_pos)
  ultimately have "scale2 1 (binade x - 52) / 2 \<le> x / 4"
    by simp
  with f64_error[OF nz] have "\<bar>f64 x - x\<bar> \<le> x / 4"
    by (simp add: ax)
  then show ?thesis by linarith
qed

lemma round64_moderate:
  assumes "1 \<le> x" "x \<le> 2 ^ 1000"
  shows "round64 x = Fin (f64 x)"
proof -
  have "scale2 1 (- 1022) \<le> 1" by (simp add: scale2_def)
  with assms have n: "\<not> \<bar>x\<bar> < scale2 1 (- 1022)" by simp
  from assms have pos: "0 < x" by simp
  have "5 / 4 * x \<le> 5 / 4 * 2 ^ 1000" using assms(2) by simp
  moreover have "(5 / 4 * 2 ^ 1000 :: real) < 2 ^ 1024" by simp
  ultimately have "f64 x < 2 ^ 1024" using f64_upper[OF pos] by linarith
  moreover have "0 \<le> f64 x" using pos by (simp add: f64_nonneg)
  ultimately have "\<not> 2 ^ 1024 \<le> \<bar>f64 x\<bar>" by linarith
  with n show ?thesis by (simp add: round64_def Let_def del: power_numeral)
qed

lemma f64_minus: "f64 (- x) = - f64 x"
  by (simp add: f64_def Let_def)

lemma round64_moderate_abs:
  assumes "1 \<le> \<bar>x\<bar>" "\<bar>x\<bar> \<le> 2 ^ 1000"
  shows "round64 x = Fin (f64 x)"
proof (cases "0 < x")
  case True
  with assms show ?thesis by (simp add: round64_moderate)
next
  case False
  with assms have p: "1 \<le> - x" "- x \<le> 2 ^ 1000" by simp_all
  have "scale2 1 (- 1022) \<le> 1" by (simp add: scale2_def)
  with assms have n: "\<not> \<bar>x\<bar> < scale2 1 (- 1022)" by linarith
  from p have pos: "0 < - x" by simp
  have "5 / 4 * (- x) \<le> 5 / 4 * 2 ^ 1000" using p(2) by simp
  moreover have "(5 / 4 * 2 ^ 1000 :: real) < 2 ^ 1024" by simp
  ultimately have "f64 (- x) < 2 ^ 1024" using f64_upper[OF pos] by linarith
  moreover have "0 \<le> f64 (- x)" using pos by (simp add: f64_nonneg)
  ultimately have "\<not> 2 ^ 1024 \<le> \<bar>f64 x\<bar>" by (simp add: f64_minus)
  with n show ?thesis by (simp add: round64_def Let_def del: power_numeral)
qed

text \<open>
  The two rates of the program as binary64 values.
\<close>

lemma f64_rates:
  "f64 16.37 = 4607745368753439 / 281474976710656"
  "f64 24.56 = 6913025428013711 / 281474976710656"
  by (simp_all add: f64_eval)

lemma round64_rates:
  "round64 16.37 = Fin (4607745368753439 / 281474976710656)"
  "round64 24.56 = Fin (6913025428013711 / 281474976710656)"
  by (simp_all add: round64_def Let_def f64_eval)

section \<open>The optimizer returns the smallest cheapest candidate\<close>

text \<open>
  The comparisons of the program order the numbers that are not \<^verbatim>\<open>NaN\<close>.
\<close>

lemma js_lt_le_trans: "js_lt a b \<Longrightarrow> js_le b c \<Longrightarrow> js_le a c"
  by (cases a; cases b; cases c) auto

lemma js_lt_le_neq: "js_lt a b \<Longrightarrow> js_le b c \<Longrightarrow> c \<noteq> a"
  by (cases a; cases b; cases c) auto

lemma not_js_lt_imp_le: "\<not> js_lt a b \<Longrightarrow> a \<noteq> NaN \<Longrightarrow> b \<noteq> NaN \<Longrightarrow> js_le b a"
  by (cases a; cases b) auto

lemma js_lt_below_PInf: "js_lt a b \<Longrightarrow> js_lt a PInf"
  by (cases a; cases b) auto

lemma below_PInf_le_self: "js_lt a PInf \<Longrightarrow> js_le a a"
  by (cases a) auto

lemma below_PInf_not_NaN: "js_lt a PInf \<Longrightarrow> a \<noteq> NaN"
  by (cases a) auto

lemma below_PInf_le_rest: "js_lt a PInf \<Longrightarrow> \<not> js_lt c PInf \<Longrightarrow> c \<noteq> NaN \<Longrightarrow> js_le a c"
  by (cases a; cases c) auto

lemma grid_step:
  assumes "10 dvd capacity" "c \<in> searchGrid" "c < capacity + 10"
  shows "c < capacity \<or> c = capacity"
proof -
  from assms have "10 dvd (capacity - c)" by (simp add: searchGrid_iff)
  with assms(3) show ?thesis by presburger
qed

lemma loop_unfold:
  "findOptimalCapacity_loop demands battery capacity opt minCost =
     (if capacity \<le> 4000 then
        (if js_lt (candidateCost demands battery capacity) minCost
         then findOptimalCapacity_loop demands battery (capacity + 10) capacity
                (candidateCost demands battery capacity)
         else findOptimalCapacity_loop demands battery (capacity + 10) opt minCost)
      else opt)"
  by (subst findOptimalCapacity_loop.simps) (simp add: candidateCost_def)

text \<open>
  The scan keeps one of the two states, whatever the total charges are.
\<close>

lemma loop_invariant:
  assumes "1000 \<le> capacity" "capacity \<le> 4010" "10 dvd capacity"
    and "(opt = 0 \<and> minCost = PInf \<and> noneBelow demands battery capacity) \<or>
         (minCost = candidateCost demands battery opt \<and> bestBelow demands battery capacity opt)"
  shows "(findOptimalCapacity_loop demands battery capacity opt minCost = 0 \<and>
          noneBelow demands battery 4010) \<or>
         bestBelow demands battery 4010 (findOptimalCapacity_loop demands battery capacity opt minCost)"
  using assms
proof (induction demands battery capacity opt minCost rule: findOptimalCapacity_loop.induct)
  case (1 demands battery capacity opt minCost)
  let ?cost = "candidateCost demands battery"
  show ?case
  proof (cases "capacity \<le> 4000")
    case False
    with "1.prems"(2,3) have cap: "capacity = 4010" by presburger
    have res: "findOptimalCapacity_loop demands battery capacity opt minCost = opt"
      using False by (subst loop_unfold) simp
    from "1.prems"(4) cap show ?thesis unfolding res by auto
  next
    case True
    have capgrid: "capacity \<in> searchGrid"
      using True "1.prems" by (simp add: searchGrid_iff)
    have next_cap: "1000 \<le> capacity + 10" "capacity + 10 \<le> 4010" "10 dvd capacity + 10"
      using True "1.prems" by auto
    note step = grid_step[OF "1.prems"(3)]
    show ?thesis
    proof (cases "js_lt (?cost capacity) minCost")
      case lt: True
      have lt': "js_lt (calculateTotalCharge_b64 demands battery (Fin (of_int capacity))) minCost"
        using lt by (simp add: candidateCost_def)
      have below: "js_lt (?cost capacity) PInf"
        using lt by (rule js_lt_below_PInf)
      have best: "bestBelow demands battery (capacity + 10) capacity"
        unfolding bestBelow_def
      proof (intro conjI ballI impI)
        show "capacity \<in> searchGrid" by (rule capgrid)
        show "capacity < capacity + 10" by simp
        show "js_lt (?cost capacity) PInf" by (rule below)
      next
        fix c assume c: "c \<in> searchGrid" "c < capacity + 10" and nn: "?cost c \<noteq> NaN"
        show "js_le (?cost capacity) (?cost c)"
        proof (cases "c = capacity")
          case True
          with below show ?thesis by (simp add: below_PInf_le_self)
        next
          case False
          with step[OF c] have clt: "c < capacity" by simp
          from "1.prems"(4) show ?thesis
          proof
            assume a: "opt = 0 \<and> minCost = PInf \<and> noneBelow demands battery capacity"
            with c(1) clt have "\<not> js_lt (?cost c) PInf" by (simp add: noneBelow_def)
            with below nn show ?thesis by (simp add: below_PInf_le_rest)
          next
            assume b: "minCost = ?cost opt \<and> bestBelow demands battery capacity opt"
            with c(1) clt nn have "js_le (?cost opt) (?cost c)" by (simp add: bestBelow_def)
            with lt b show ?thesis by (auto intro: js_lt_le_trans)
          qed
        qed
      next
        fix c assume c: "c \<in> searchGrid" "c < capacity + 10" and eq: "?cost c = ?cost capacity"
        show "capacity \<le> c"
        proof (rule ccontr)
          assume "\<not> capacity \<le> c"
          then have clt: "c < capacity" by simp
          from below eq have nn: "?cost c \<noteq> NaN" by (simp add: below_PInf_not_NaN)
          from "1.prems"(4) show False
          proof
            assume a: "opt = 0 \<and> minCost = PInf \<and> noneBelow demands battery capacity"
            with c(1) clt have "\<not> js_lt (?cost c) PInf" by (simp add: noneBelow_def)
            with below eq show False by simp
          next
            assume b: "minCost = ?cost opt \<and> bestBelow demands battery capacity opt"
            with c(1) clt nn have "js_le (?cost opt) (?cost c)" by (simp add: bestBelow_def)
            with lt b have "?cost c \<noteq> ?cost capacity" by (auto dest: js_lt_le_neq)
            with eq show False by simp
          qed
        qed
      qed
      have "findOptimalCapacity_loop demands battery capacity opt minCost =
            findOptimalCapacity_loop demands battery (capacity + 10) capacity (?cost capacity)"
        using True lt by (subst loop_unfold) simp
      moreover have "(findOptimalCapacity_loop demands battery (capacity + 10) capacity (?cost capacity) = 0 \<and>
          noneBelow demands battery 4010) \<or>
         bestBelow demands battery 4010
           (findOptimalCapacity_loop demands battery (capacity + 10) capacity (?cost capacity))"
        using "1.IH"(1)[OF True lt' next_cap] best by (simp add: candidateCost_def)
      ultimately show ?thesis by simp
    next
      case nlt: False
      have nlt': "\<not> js_lt (calculateTotalCharge_b64 demands battery (Fin (of_int capacity))) minCost"
        using nlt by (simp add: candidateCost_def)
      have inv': "(opt = 0 \<and> minCost = PInf \<and> noneBelow demands battery (capacity + 10)) \<or>
         (minCost = ?cost opt \<and> bestBelow demands battery (capacity + 10) opt)"
        using "1.prems"(4)
      proof
        assume a: "opt = 0 \<and> minCost = PInf \<and> noneBelow demands battery capacity"
        have "noneBelow demands battery (capacity + 10)"
          unfolding noneBelow_def
        proof (intro ballI impI)
          fix c assume c: "c \<in> searchGrid" "c < capacity + 10"
          from step[OF c] show "\<not> js_lt (?cost c) PInf"
          proof
            assume "c < capacity"
            with a c(1) show ?thesis by (simp add: noneBelow_def)
          next
            assume "c = capacity"
            with a nlt show ?thesis by simp
          qed
        qed
        with a show ?thesis by simp
      next
        assume b: "minCost = ?cost opt \<and> bestBelow demands battery capacity opt"
        then have bb: "bestBelow demands battery capacity opt" and m: "minCost = ?cost opt" by simp_all
        from bb have optb: "js_lt (?cost opt) PInf" and optlt: "opt < capacity" and optg: "opt \<in> searchGrid"
          by (simp_all add: bestBelow_def)
        have "bestBelow demands battery (capacity + 10) opt"
          unfolding bestBelow_def
        proof (intro conjI ballI impI)
          show "opt \<in> searchGrid" by (rule optg)
          show "opt < capacity + 10" using optlt by simp
          show "js_lt (?cost opt) PInf" by (rule optb)
        next
          fix c assume c: "c \<in> searchGrid" "c < capacity + 10" and nn: "?cost c \<noteq> NaN"
          from step[OF c] show "js_le (?cost opt) (?cost c)"
          proof
            assume "c < capacity"
            with bb c(1) nn show ?thesis by (simp add: bestBelow_def)
          next
            assume e: "c = capacity"
            from nlt m have "\<not> js_lt (?cost capacity) (?cost opt)" by simp
            then have "js_le (?cost opt) (?cost capacity)"
              using nn e optb by (intro not_js_lt_imp_le) (simp_all add: below_PInf_not_NaN)
            with e show ?thesis by simp
          qed
        next
          fix c assume c: "c \<in> searchGrid" "c < capacity + 10" and eq: "?cost c = ?cost opt"
          from step[OF c] show "opt \<le> c"
          proof
            assume "c < capacity"
            with bb c(1) eq show ?thesis by (simp add: bestBelow_def)
          next
            assume "c = capacity"
            with optlt show ?thesis by simp
          qed
        qed
        with m show ?thesis by simp
      qed
      have "findOptimalCapacity_loop demands battery capacity opt minCost =
            findOptimalCapacity_loop demands battery (capacity + 10) opt minCost"
        using True nlt by (subst loop_unfold) simp
      moreover note "1.IH"(2)[OF True nlt' next_cap inv']
      ultimately show ?thesis by simp
    qed
  qed
qed

lemma findOptimalCapacity_cases:
  "(findOptimalCapacity demands battery = 0 \<and> noneBelow demands battery 4010) \<or>
   bestBelow demands battery 4010 (findOptimalCapacity demands battery)"
  unfolding findOptimalCapacity_def
  by (rule loop_invariant) (simp_all add: noneBelow_def searchGrid_iff)

text \<open>
  Claim C1, as amended. The total charge of a candidate is the one the program computes,
  in binary64 arithmetic. For every demand series and battery capacity for which the total
  charge of at least one candidate is below \<^verbatim>\<open>Infinity\<close>, \<^verbatim>\<open>findOptimalCapacity\<close> returns a
  capacity of the grid \<open>1000, 1010, ..., 4000\<close> whose total charge is below
  \<^verbatim>\<open>Infinity\<close> and no larger than that of any other candidate (a candidate whose total is
  \<^verbatim>\<open>NaN\<close> is never adopted), and it is the smallest such candidate: every candidate of equal
  total charge is at least as large. The result is a function of the demand series and the
  battery capacity alone, so two calls with the same inputs return the same capacity.
\<close>

theorem findOptimalCapacity_smallest_minimum:
  assumes "\<exists>c\<in>searchGrid. js_lt (candidateCost demands battery c) PInf"
  shows "findOptimalCapacity demands battery \<in> searchGrid \<and>
         js_lt (candidateCost demands battery (findOptimalCapacity demands battery)) PInf \<and>
         (\<forall>c\<in>searchGrid.
            (candidateCost demands battery c \<noteq> NaN \<longrightarrow>
               js_le (candidateCost demands battery (findOptimalCapacity demands battery))
                     (candidateCost demands battery c)) \<and>
            (candidateCost demands battery c =
             candidateCost demands battery (findOptimalCapacity demands battery)
             \<longrightarrow> findOptimalCapacity demands battery \<le> c))"
proof -
  from assms have "\<not> noneBelow demands battery 4010"
    by (auto simp: noneBelow_def searchGrid_iff)
  with findOptimalCapacity_cases[of demands battery]
  have "bestBelow demands battery 4010 (findOptimalCapacity demands battery)" by simp
  then show ?thesis
    by (simp add: bestBelow_def searchGrid_iff)
qed

text \<open>
  The total charge of the candidate 1000 for the demand series of the program and the
  default battery capacity.
\<close>

lemma effectiveDemands_b64_reference:
  "effectiveDemands_b64 maxDemands (Fin 400) =
     [Fin 2714, Fin 2336, Fin 1067, Fin 3494, Fin 2685, Fin 2677, Fin 2713, Fin 2698]"
  unfolding effectiveDemands_b64_def maxDemands_def list.map
  by (simp add: sub_b64_def round64_moderate f64_eval)

lemma charges_b64_at_1000:
  "calculateMonthlyCharge_b64 (Fin 2714) (Fin 1000) = Fin (2008870965865349 / 34359738368)"
  "calculateMonthlyCharge_b64 (Fin 2336) (Fin 1000) = Fin (6759544599892459 / 137438953472)"
  "calculateMonthlyCharge_b64 (Fin 1067) (Fin 1000) = Fin (4952068430107771 / 274877906944)"
  "calculateMonthlyCharge_b64 (Fin 3494) (Fin 1000) = Fin (5334187203666903 / 68719476736)"
  "calculateMonthlyCharge_b64 (Fin 2685) (Fin 1000) = Fin (7937594343240499 / 137438953472)"
  "calculateMonthlyCharge_b64 (Fin 2677) (Fin 1000) = Fin (494411896103895 / 8589934592)"
  "calculateMonthlyCharge_b64 (Fin 2713) (Fin 1000) = Fin (2008027090691031 / 34359738368)"
  "calculateMonthlyCharge_b64 (Fin 2698) (Fin 1000) = Fin (7981475852305039 / 137438953472)"
  by (simp_all add: calculateMonthlyCharge_b64_def add_b64_def sub_b64_def mul_b64_def
      round64_moderate f64_eval)

lemma candidateCost_reference_1000:
  "candidateCost maxDemands (Fin 400) 1000 = Fin (467196921732137 / 1073741824)"
  unfolding candidateCost_def calculateTotalCharge_b64_def effectiveDemands_b64_reference list.map
  by (simp add: charges_b64_at_1000) (simp add: add_b64_def round64_moderate f64_eval)

text \<open>
  The theorem at the demand series of the program with the default battery capacity,
  compared with the candidate 1000; and at the empty series, where all candidates cost
  the same, compared with the candidate 4000.
\<close>

theorem findOptimalCapacity_smallest_minimum_witness:
  "1000 \<in> searchGrid \<and> js_lt (candidateCost maxDemands (Fin 400) 1000) PInf \<and>
   findOptimalCapacity maxDemands (Fin 400) \<in> searchGrid \<and>
   js_lt (candidateCost maxDemands (Fin 400) (findOptimalCapacity maxDemands (Fin 400))) PInf \<and>
   candidateCost maxDemands (Fin 400) 1000 \<noteq> NaN \<and>
   js_le (candidateCost maxDemands (Fin 400) (findOptimalCapacity maxDemands (Fin 400)))
         (candidateCost maxDemands (Fin 400) 1000) \<and>
   4000 \<in> searchGrid \<and> js_lt (candidateCost [] (Fin 400) 4000) PInf \<and>
   candidateCost [] (Fin 400) 4000 =
     candidateCost [] (Fin 400) (findOptimalCapacity [] (Fin 400)) \<and>
   findOptimalCapacity [] (Fin 400) \<le> 4000"
proof -
  have g1: "(1000::int) \<in> searchGrid" and g2: "(4000::int) \<in> searchGrid"
    by (simp_all add: searchGrid_iff)
  have f1: "js_lt (candidateCost maxDemands (Fin 400) 1000) PInf"
    and n1: "candidateCost maxDemands (Fin 400) 1000 \<noteq> NaN"
    by (simp_all add: candidateCost_reference_1000)
  have e: "candidateCost [] (Fin 400) c = Fin 0" for c
    by (simp add: candidateCost_def calculateTotalCharge_b64_def effectiveDemands_b64_def)
  have f2: "js_lt (candidateCost [] (Fin 400) 4000) PInf"
    by (simp add: e)
  have tie: "candidateCost [] (Fin 400) 4000 =
     candidateCost [] (Fin 400) (findOptimalCapacity [] (Fin 400))"
    by (simp add: e)
  have h1: "\<exists>c\<in>searchGrid. js_lt (candidateCost maxDemands (Fin 400) c) PInf"
    using g1 f1 by (rule bexI[rotated])
  have h2: "\<exists>c\<in>searchGrid. js_lt (candidateCost [] (Fin 400) c) PInf"
    using g2 f2 by (rule bexI[rotated])
  note a = findOptimalCapacity_smallest_minimum[OF h1]
  note b = findOptimalCapacity_smallest_minimum[OF h2]
  from a have a0: "findOptimalCapacity maxDemands (Fin 400) \<in> searchGrid"
    and a1: "js_lt (candidateCost maxDemands (Fin 400) (findOptimalCapacity maxDemands (Fin 400))) PInf"
    by simp_all
  from a g1 n1 have a2: "js_le (candidateCost maxDemands (Fin 400) (findOptimalCapacity maxDemands (Fin 400)))
         (candidateCost maxDemands (Fin 400) 1000)"
    by fastforce
  from b g2 tie have b1: "findOptimalCapacity [] (Fin 400) \<le> 4000"
    by fastforce
  show ?thesis using g1 g2 f1 n1 f2 tie a0 a1 a2 b1 by simp
qed

text \<open>
  When no candidate has a total charge below \<^verbatim>\<open>Infinity\<close>, the scan returns its starting
  value 0, which is not on the grid.
\<close>

lemma findOptimalCapacity_none:
  assumes "\<forall>c\<in>searchGrid. \<not> js_lt (candidateCost demands battery c) PInf"
  shows "findOptimalCapacity demands battery = 0"
proof -
  from assms have "\<not> bestBelow demands battery 4010 (findOptimalCapacity demands battery)"
    by (auto simp: bestBelow_def)
  with findOptimalCapacity_cases[of demands battery] show ?thesis by simp
qed

text \<open>
  That happens for a battery capacity of \<^verbatim>\<open>-1e308\<close>, which the battery input stores as
  typed: every effective demand is about \<open>10\<^sup>3\<^sup>0\<^sup>8\<close>, its product with the exceedance rate
  overflows, and every total charge is \<^verbatim>\<open>Infinity\<close>.
\<close>

lemma round64_minus_1e308:
  "round64 (- (10 ^ 308)) = Fin (- (5010420900022432 * 2 ^ 971))"
  by (simp add: round64_def Let_def f64_eval)

lemma Math_max_zero_PInf: "Math_max [Fin 0, PInf] = PInf"
  by (simp add: Math_max_def)

lemma exceedance_charge_overflow:
  assumes a: "a = PInf \<or> (\<exists>v. a = Fin v \<and> 2 ^ 1022 + 4000 \<le> v)"
    and c: "0 \<le> c" "c \<le> 4000"
  shows "mul_b64 (Math_max [Fin 0, sub_b64 a (Fin c)]) (round64 24.56) = PInf"
proof -
  have e: "Math_max [Fin 0, sub_b64 a (Fin c)] = PInf \<or>
           (\<exists>w. Math_max [Fin 0, sub_b64 a (Fin c)] = Fin w \<and> 3 / 4 * 2 ^ 1022 \<le> w)"
    using a
  proof
    assume "a = PInf"
    then show ?thesis by (simp add: sub_b64_def js_sub_def Math_max_zero_PInf)
  next
    assume "\<exists>v. a = Fin v \<and> 2 ^ 1022 + 4000 \<le> v"
    then obtain v where v: "a = Fin v" "2 ^ 1022 + 4000 \<le> v" by blast
    with c have big: "2 ^ 1022 \<le> v - c" by linarith
    have "(1::real) \<le> 2 ^ 1022" by simp
    with big have "1 \<le> v - c" by linarith
    from round64_big[OF this] show ?thesis
    proof
      assume "round64 (v - c) = PInf"
      with v show ?thesis by (simp add: sub_b64_def Math_max_zero_PInf)
    next
      assume "\<exists>w. round64 (v - c) = Fin w \<and> 3 / 4 * (v - c) \<le> w"
      then obtain w where w: "round64 (v - c) = Fin w" "3 / 4 * (v - c) \<le> w" by blast
      from big have "3 / 4 * 2 ^ 1022 \<le> 3 / 4 * (v - c)" by simp
      with w(2) have lo: "3 / 4 * 2 ^ 1022 \<le> w" by linarith
      have "(0::real) \<le> 3 / 4 * 2 ^ 1022" by simp
      with lo have "0 \<le> w" by linarith
      with v w(1) lo show ?thesis by (simp add: sub_b64_def max_def del: power_numeral)
    qed
  qed
  then show ?thesis
  proof
    assume "Math_max [Fin 0, sub_b64 a (Fin c)] = PInf"
    then show ?thesis unfolding round64_rates by (simp add: mul_b64_def signed_inf_def)
  next
    assume "\<exists>w. Math_max [Fin 0, sub_b64 a (Fin c)] = Fin w \<and> 3 / 4 * 2 ^ 1022 \<le> w"
    then obtain w where w: "Math_max [Fin 0, sub_b64 a (Fin c)] = Fin w" "3 / 4 * 2 ^ 1022 \<le> w"
      by blast
    have "(0::real) \<le> 3 / 4 * 2 ^ 1022" by simp
    with w(2) have w0: "0 \<le> w" by linarith
    have "3 / 4 * 2 ^ 1022 * 24 \<le> w * (6913025428013711 / 281474976710656)"
      using w(2) w0 by (intro mult_mono) simp_all
    moreover have "(2 ^ 1025 :: real) \<le> 3 / 4 * 2 ^ 1022 * 24" by simp
    ultimately have "2 ^ 1025 \<le> w * (6913025428013711 / 281474976710656)" by linarith
    from round64_overflow[OF this] w(1) show ?thesis
      unfolding round64_rates by (simp add: mul_b64_def)
  qed
qed

lemma charge_overflow:
  assumes a: "a = PInf \<or> (\<exists>v. a = Fin v \<and> 2 ^ 1022 + 4000 \<le> v)"
    and c: "0 \<le> c" "c \<le> 4000"
  shows "calculateMonthlyCharge_b64 a (Fin c) = PInf"
proof -
  have m: "mul_b64 (Fin c) (round64 16.37) = round64 (c * (4607745368753439 / 281474976710656))"
    unfolding round64_rates by (simp add: mul_b64_def)
  have "0 \<le> c * (4607745368753439 / 281474976710656)" using c by simp
  from round64_nonneg[OF this]
  have "add_b64 (mul_b64 (Fin c) (round64 16.37)) PInf = PInf"
    unfolding m by (auto simp: add_b64_def)
  then show ?thesis
    unfolding calculateMonthlyCharge_b64_def Let_def exceedance_charge_overflow[OF assms]
    by simp
qed

lemma effective_demand_huge:
  assumes "0 \<le> d" "2 ^ 1023 \<le> b"
  shows "Math_max [Fin 0, sub_b64 (Fin d) (Fin (- b))] = PInf \<or>
         (\<exists>v. Math_max [Fin 0, sub_b64 (Fin d) (Fin (- b))] = Fin v \<and> 2 ^ 1022 + 4000 \<le> v)"
proof -
  from assms have big: "2 ^ 1023 \<le> d + b" by linarith
  have "(1::real) \<le> 2 ^ 1023" by simp
  with big have "1 \<le> d + b" by linarith
  from round64_big[OF this] show ?thesis
  proof
    assume "round64 (d + b) = PInf"
    then show ?thesis by (simp add: sub_b64_def Math_max_zero_PInf)
  next
    assume "\<exists>v. round64 (d + b) = Fin v \<and> 3 / 4 * (d + b) \<le> v"
    then obtain v where v: "round64 (d + b) = Fin v" "3 / 4 * (d + b) \<le> v" by blast
    from big have "3 / 4 * 2 ^ 1023 \<le> 3 / 4 * (d + b)" by simp
    moreover have "(2 ^ 1022 + 4000 :: real) \<le> 3 / 4 * 2 ^ 1023" by simp
    ultimately have lo: "2 ^ 1022 + 4000 \<le> v" using v(2) by linarith
    have "(0::real) \<le> 2 ^ 1022 + 4000" by simp
    with lo have "0 \<le> v" by linarith
    with v(1) lo show ?thesis by (simp add: sub_b64_def max_def del: power_numeral)
  qed
qed

lemma candidateCost_overflow:
  assumes "0 \<le> c" "c \<le> 4000"
  shows "candidateCost maxDemands (round64 (- (10 ^ 308))) c = PInf"
proof -
  have b: "(2 ^ 1023 :: real) \<le> 5010420900022432 * 2 ^ 971" by simp
  have c': "0 \<le> real_of_int c" "real_of_int c \<le> 4000" using assms by simp_all
  have ch: "calculateMonthlyCharge_b64
              (Math_max [Fin 0, sub_b64 (Fin d) (Fin (- (5010420900022432 * 2 ^ 971)))])
              (Fin (of_int c)) = PInf" if "0 \<le> d" for d
    by (rule charge_overflow[OF effective_demand_huge[OF that b] c'])
  show ?thesis
    unfolding candidateCost_def calculateTotalCharge_b64_def effectiveDemands_b64_def
      round64_minus_1e308 maxDemands_def
    by (simp add: ch add_b64_def del: power_numeral)
qed

text \<open>
  For the demand series of the program and the battery capacity \<^verbatim>\<open>-1e308\<close>, both finite
  numbers, \<^verbatim>\<open>findOptimalCapacity\<close> returns 0, which is not a capacity of the grid.
\<close>

theorem optimizer_overflow_counterexample:
  "list_all is_fin maxDemands \<and> is_fin (round64 (- (10 ^ 308))) \<and>
   findOptimalCapacity maxDemands (round64 (- (10 ^ 308))) = 0 \<and>
   findOptimalCapacity maxDemands (round64 (- (10 ^ 308))) \<notin> searchGrid"
proof -
  have "\<forall>c\<in>searchGrid. \<not> js_lt (candidateCost maxDemands (round64 (- (10 ^ 308))) c) PInf"
  proof
    fix c :: int assume "c \<in> searchGrid"
    then have "0 \<le> c" "c \<le> 4000" by (simp_all add: searchGrid_iff)
    then have "candidateCost maxDemands (round64 (- (10 ^ 308))) c = PInf"
      by (rule candidateCost_overflow)
    then show "\<not> js_lt (candidateCost maxDemands (round64 (- (10 ^ 308))) c) PInf"
      by (simp only: js_lt.simps not_False_eq_True)
  qed
  then have r: "findOptimalCapacity maxDemands (round64 (- (10 ^ 308))) = 0"
    by (rule findOptimalCapacity_none)
  have g: "(0::int) \<notin> searchGrid" by (simp add: searchGrid_iff)
  have d: "list_all is_fin maxDemands" by (simp add: maxDemands_def)
  have b: "is_fin (round64 (- (10 ^ 308)))"
    unfolding round64_minus_1e308 by (simp only: is_fin.simps)
  from r g d b show ?thesis by (simp only: simp_thms)
qed

text \<open>
  For the empty series, where every candidate costs 0, the scan returns the first
  candidate.
\<close>

lemma findOptimalCapacity_empty: "findOptimalCapacity [] (Fin 400) = 1000"
  by (simp add: findOptimalCapacity_def findOptimalCapacity_loop.simps
      calculateTotalCharge_b64_def effectiveDemands_b64_def)

text \<open>
  Rounding can make two candidates tie whose exact totals differ: for the battery
  capacity \<^verbatim>\<open>403.6775244299674\<close> the computed totals of the candidates 2670 and 2680 are
  the same number, and the scan keeps the earlier one.
\<close>

lemma battery_b64_tie:
  "round64 403.6775244299674 = Fin (7101570111721271 / 17592186044416)"
  by (simp add: round64_moderate_abs f64_eval)

lemma effectiveDemands_b64_tie:
  "effectiveDemands_b64 maxDemands (Fin (7101570111721271 / 17592186044416)) =
     [Fin (5960062153823769 / 2199023255552),
      Fin (5128831363225113 / 2199023255552),
      Fin (2338270851929625 / 2199023255552),
      Fin (7675300293154329 / 2199023255552),
      Fin (5896290479412761 / 2199023255552),
      Fin (5878698293368345 / 2199023255552),
      Fin (5957863130568217 / 2199023255552),
      Fin (5924877781734937 / 2199023255552)]"
  unfolding effectiveDemands_b64_def maxDemands_def list.map
  by (simp add: sub_b64_def round64_moderate_abs f64_eval)

lemma charges_b64_tie:
  "calculateMonthlyCharge_b64 (Fin (5960062153823769 / 2199023255552)) (Fin 2670) = Fin (1535819144715305 / 34359738368)"
  "calculateMonthlyCharge_b64 (Fin (5128831363225113 / 2199023255552)) (Fin 2670) = Fin (6007168034458829 / 137438953472)"
  "calculateMonthlyCharge_b64 (Fin (2338270851929625 / 2199023255552)) (Fin 2670) = Fin (6007168034458829 / 137438953472)"
  "calculateMonthlyCharge_b64 (Fin (7675300293154329 / 2199023255552)) (Fin 2670) = Fin (4388083561366815 / 68719476736)"
  "calculateMonthlyCharge_b64 (Fin (5896290479412761 / 2199023255552)) (Fin 2670) = Fin (6045387058640323 / 137438953472)"
  "calculateMonthlyCharge_b64 (Fin (5878698293368345 / 2199023255552)) (Fin 2670) = Fin (87579 / 2)"
  "calculateMonthlyCharge_b64 (Fin (5957863130568217 / 2199023255552)) (Fin 2670) = Fin (1534975269540987 / 34359738368)"
  "calculateMonthlyCharge_b64 (Fin (5924877781734937 / 2199023255552)) (Fin 2670) = Fin (6089268567704863 / 137438953472)"
  "calculateMonthlyCharge_b64 (Fin (5960062153823769 / 2199023255552)) (Fin 2680) = Fin (766502541071483 / 17179869184)"
  "calculateMonthlyCharge_b64 (Fin (5128831363225113 / 2199023255552)) (Fin 2680) = Fin (1507416697785549 / 34359738368)"
  "calculateMonthlyCharge_b64 (Fin (2338270851929625 / 2199023255552)) (Fin 2680) = Fin (1507416697785549 / 34359738368)"
  "calculateMonthlyCharge_b64 (Fin (7675300293154329 / 2199023255552)) (Fin 2680) = Fin (4382455436222137 / 68719476736)"
  "calculateMonthlyCharge_b64 (Fin (5896290479412761 / 2199023255552)) (Fin 2680) = Fin (6034130808350967 / 137438953472)"
  "calculateMonthlyCharge_b64 (Fin (5878698293368345 / 2199023255552)) (Fin 2680) = Fin (1507416697785549 / 34359738368)"
  "calculateMonthlyCharge_b64 (Fin (5957863130568217 / 2199023255552)) (Fin 2680) = Fin (6128644827874591 / 137438953472)"
  "calculateMonthlyCharge_b64 (Fin (5924877781734937 / 2199023255552)) (Fin 2680) = Fin (6078012317415507 / 137438953472)"
  by (simp_all add: calculateMonthlyCharge_b64_def add_b64_def sub_b64_def mul_b64_def
      round64_moderate_abs round64_zero f64_eval)

lemma candidateCost_tie:
  "candidateCost maxDemands (round64 403.6775244299674) 2670 = Fin (3201669970505237 / 8589934592)"
  "candidateCost maxDemands (round64 403.6775244299674) 2680 = Fin (3201669970505237 / 8589934592)"
  unfolding candidateCost_def calculateTotalCharge_b64_def battery_b64_tie
    effectiveDemands_b64_tie list.map
  by (simp_all add: charges_b64_tie) (simp_all add: add_b64_def round64_moderate_abs f64_eval)

text \<open>
  In exact arithmetic the total of 2680 for this battery capacity is strictly below the
  total of 2670.
\<close>

lemma exact_totals_at_tie:
  "js_lt (calculateTotalCharge maxDemands (round64 403.6775244299674) (Fin 2680))
         (calculateTotalCharge maxDemands (round64 403.6775244299674) (Fin 2670))"
  unfolding battery_b64_tie
  by (simp add: maxDemands_def
      calculateTotalCharge_Fin[of "[3114, 2736, 1467, 3894, 3085, 3077, 3113, 3098]", simplified])

section \<open>The reference scenario\<close>

lemma effectiveDemands_reference:
  "effectiveDemands maxDemands (Fin 400) = map Fin [2714, 2336, 1067, 3494, 2685, 2677, 2713, 2698]"
  by (simp add: maxDemands_def effectiveDemands_def)

text \<open>
  Claim C2, as amended. With the demand series of the program, battery capacity 400 and
  the rates 16.37 and 24.56, the effective demands are
  \<open>[2714, 2336, 1067, 3494, 2685, 2677, 2713, 2698]\<close>; at contracted capacity 3100 the
  July charge (effective demand 1067, exceedance 0) is \<open>3100 * 16.37 = 50747\<close>, and the
  August charge (effective demand 3494, exceedance 394) is
  \<open>50747 + 394 * 24.56 = 60423.64\<close>.
\<close>

theorem reference_scenario_charges:
  "effectiveDemands maxDemands (Fin 400) = map Fin [2714, 2336, 1067, 3494, 2685, 2677, 2713, 2698] \<and>
   exceedance (effectiveDemands maxDemands (Fin 400) ! 2) (Fin 3100) = Fin 0 \<and>
   calculateMonthlyCharge (effectiveDemands maxDemands (Fin 400) ! 2) (Fin 3100) = Fin 50747 \<and>
   exceedance (effectiveDemands maxDemands (Fin 400) ! 3) (Fin 3100) = Fin 394 \<and>
   calculateMonthlyCharge (effectiveDemands maxDemands (Fin 400) ! 3) (Fin 3100) = Fin 60423.64"
  by (simp add: effectiveDemands_reference exceedance_def calculateMonthlyCharge_Fin)

text \<open>
  The August charge is not the 60424.64 of the claim: it is exactly 1 less.
\<close>

theorem august_charge_counterexample:
  "calculateMonthlyCharge (effectiveDemands maxDemands (Fin 400) ! 3) (Fin 3100) \<noteq> Fin 60424.64 \<and>
   \<bar>the_fin (calculateMonthlyCharge (effectiveDemands maxDemands (Fin 400) ! 3) (Fin 3100)) - 60424.64\<bar> = 1"
  by (simp add: effectiveDemands_reference calculateMonthlyCharge_Fin)

text \<open>
  With every operation rounded, the July charge is still exactly 50747 and the August
  charge is the binary64 value nearest to 60423.64.
\<close>

lemma reference_scenario_charges_f64:
  "calculateMonthlyCharge_f64 1067 3100 = 50747"
  "calculateMonthlyCharge_f64 3494 3100 = f64 60423.64"
  by (simp_all add: calculateMonthlyCharge_f64_def f64_add_def f64_sub_def f64_mul_def f64_rates f64_eval)

section \<open>Savings and their decomposition\<close>

lemma monthlyCharges_Fin:
  "monthlyCharges (map Fin ds) (Fin b) (Fin c) =
     map Fin (map (\<lambda>d. c * 16.37 + max 0 (max 0 (d - b) - c) * 24.56) ds)"
  by (simp add: monthlyCharges_def effectiveDemands_Fin calculateMonthlyCharge_Fin comp_def)

lemma originalCharges_Fin:
  "originalCharges (map Fin ds) = map Fin (map (\<lambda>d. 3100 * 16.37 + max 0 (d - 3100) * 24.56) ds)"
  by (simp add: originalCharges_def calculateMonthlyCharge_Fin comp_def)


lemma savings_Fin:
  "savings (map Fin ds) (Fin b) (Fin c) =
     Fin ((\<Sum>d\<leftarrow>ds. 3100 * 16.37 + max 0 (d - 3100) * 24.56) -
          (\<Sum>d\<leftarrow>ds. c * 16.37 + max 0 (max 0 (d - b) - c) * 24.56))"
  by (simp only: savings_def totalOriginalCharge_def totalCharge_def monthlyCharges_Fin
      originalCharges_Fin reduce_sum_Fin js_sub_Fin)














section \<open>The original scenario is the current one without battery at 3100\<close>

lemma charge_without_battery:
  "calculateMonthlyCharge (Math_max [Fin 0, js_sub d (Fin 0)]) (Fin 3100) = calculateMonthlyCharge d (Fin 3100)"
  by (cases d) (simp_all add: calculateMonthlyCharge_def Math_max_def js_sub_def signed_inf_def)

text \<open>
  Claim C4. For every demand series, the total charge of the current scenario with
  battery capacity 0 and contracted capacity 3100 (as \<^verbatim>\<open>calculateTotalCharge(3100)\<close> and
  as \<^verbatim>\<open>totalCharge\<close>) is the total charge of the original scenario. The rates are the
  literals of \<^verbatim>\<open>calculateMonthlyCharge\<close> on both sides.
\<close>

theorem baseline_symmetry:
  "calculateTotalCharge demands (Fin 0) (Fin 3100) = totalOriginalCharge demands \<and>
   totalCharge demands (Fin 0) (Fin 3100) = totalOriginalCharge demands"
  by (simp add: calculateTotalCharge_def totalCharge_def monthlyCharges_def totalOriginalCharge_def
      originalCharges_def effectiveDemands_def comp_def charge_without_battery)

text \<open>
  The same holds with every operation rounded, for a demand series of binary64 values:
  both totals are computed by the same operations on the same numbers.
\<close>

lemma charge_without_battery_f64:
  assumes "f64 d = d"
  shows "calculateMonthlyCharge_f64 (max 0 (f64_sub d 0)) 3100 = calculateMonthlyCharge_f64 d 3100"
proof (cases "0 \<le> d")
  case True
  with assms show ?thesis by (simp add: f64_sub_def max_def)
next
  case False
  then have "d - 3100 < 0" by simp
  then have "f64 (d - 3100) \<le> 0" by (rule f64_nonpos)
  moreover have "f64 (0 - 3100) = - 3100" by (simp add: f64_eval)
  ultimately show ?thesis
    using False assms by (simp add: f64_sub_def calculateMonthlyCharge_f64_def max_def)
qed

lemma baseline_symmetry_f64:
  assumes "list_all (\<lambda>d. f64 d = d) demands"
  shows "totalCharge_f64 demands 0 3100 = totalOriginalCharge_f64 demands"
proof -
  have "map (\<lambda>effDemand. calculateMonthlyCharge_f64 effDemand 3100) (effectiveDemands_f64 demands 0)
      = map (\<lambda>demand. calculateMonthlyCharge_f64 demand 3100) demands"
    using assms by (induction demands) (simp_all add: effectiveDemands_f64_def charge_without_battery_f64)
  then show ?thesis
    by (simp add: totalCharge_f64_def monthlyCharges_f64_def totalOriginalCharge_f64_def originalCharges_f64_def)
qed

section \<open>The rationale\<close>

text \<open>
  Claim C5. The reason shown is chosen by a three-way rule: if the savings are
  \<open>\<ge> 0\<close> the battery text; otherwise, if the contracted capacity is greater than the
  largest effective demand, the "too high" text; otherwise the "too low" text. The three
  texts are different, so exactly one of them is shown.
\<close>

theorem rationale_three_way:
  "(js_ge (savings demands battery contracted) (Fin 0) \<longrightarrow>
      rationale demands battery contracted = batteryText) \<and>
   (\<not> js_ge (savings demands battery contracted) (Fin 0) \<and>
    js_gt contracted (maxEffectiveDemand demands battery) \<longrightarrow>
      rationale demands battery contracted = tooHighText) \<and>
   (\<not> js_ge (savings demands battery contracted) (Fin 0) \<and>
    \<not> js_gt contracted (maxEffectiveDemand demands battery) \<longrightarrow>
      rationale demands battery contracted = tooLowText) \<and>
   batteryText \<noteq> tooHighText \<and> batteryText \<noteq> tooLowText \<and> tooHighText \<noteq> tooLowText"
  by (simp add: rationale_def isPositiveSavings_def negativeReason_def
      batteryText_def tooHighText_def tooLowText_def)

lemma savings_reference:
  "savings maxDemands (Fin 400) (Fin 3100) = Fin 10487.12"
  "savings maxDemands (Fin 400) (Fin 4000) = Fin (- 97700.24)"
  "savings maxDemands (Fin 400) (Fin 1000) = Fin (- 8971.28)"
  "savings maxDemands (Fin 0) (Fin 2000) = Fin (- 35133.76)"
  by (simp_all add: maxDemands_def savings_Fin[of "[3114, 2736, 1467, 3894, 3085, 3077, 3113, 3098]", simplified])

lemma extremes_reference:
  "maxEffectiveDemand maxDemands (Fin 400) = Fin 3494"
  "minEffectiveDemand maxDemands (Fin 400) = Fin 1067"
  "maxEffectiveDemand maxDemands (Fin 0) = Fin 3894"
  "minEffectiveDemand maxDemands (Fin 0) = Fin 1467"
  by (simp_all add: maxEffectiveDemand_def minEffectiveDemand_def effectiveDemands_def maxDemands_def
      Math_max_def Math_min_def)

text \<open>
  One state of the program's demand series for each branch, and one with negative savings
  and the contracted capacity between the smallest and the largest effective demand.
\<close>

theorem rationale_three_way_witness:
  "js_ge (savings maxDemands (Fin 400) (Fin 3100)) (Fin 0) \<and>
   rationale maxDemands (Fin 400) (Fin 3100) = batteryText \<and>
   \<not> js_ge (savings maxDemands (Fin 400) (Fin 4000)) (Fin 0) \<and>
   js_gt (Fin 4000) (maxEffectiveDemand maxDemands (Fin 400)) \<and>
   rationale maxDemands (Fin 400) (Fin 4000) = tooHighText \<and>
   \<not> js_ge (savings maxDemands (Fin 400) (Fin 1000)) (Fin 0) \<and>
   \<not> js_gt (Fin 1000) (maxEffectiveDemand maxDemands (Fin 400)) \<and>
   js_lt (Fin 1000) (minEffectiveDemand maxDemands (Fin 400)) \<and>
   rationale maxDemands (Fin 400) (Fin 1000) = tooLowText \<and>
   \<not> js_ge (savings maxDemands (Fin 0) (Fin 2000)) (Fin 0) \<and>
   \<not> js_gt (Fin 2000) (maxEffectiveDemand maxDemands (Fin 0)) \<and>
   \<not> js_lt (Fin 2000) (minEffectiveDemand maxDemands (Fin 0)) \<and>
   rationale maxDemands (Fin 0) (Fin 2000) = tooLowText"
  using rationale_three_way[of maxDemands "Fin 400" "Fin 3100"]
    rationale_three_way[of maxDemands "Fin 400" "Fin 4000"]
    rationale_three_way[of maxDemands "Fin 400" "Fin 1000"]
    rationale_three_way[of maxDemands "Fin 0" "Fin 2000"]
  by (simp add: savings_reference extremes_reference js_ge_def js_gt_def)

section \<open>Dragging the reference line\<close>

lemma handleMouseMove_Fin:
  assumes "isDragging st" and "0 < h"
  shows "handleMouseMove st (Fin t) (Fin h) (Fin y) =
     (if 0 \<le> y - t \<and> y - t \<le> h
      then st\<lparr>contractedCapacity :=
             Fin (max 1000 (min 4000 (of_int \<lfloor>(1 - (y - t) / h) * 4000 / 10 + 1 / 2\<rfloor> * 10)))\<rparr>
      else st)"
  using assms by (simp add: handleMouseMove_def js_ge_def Let_def)




text \<open>
  Claim C7. With a chart of height 0 a mouse move during a drag should leave the
  contracted capacity at its last value and never store \<^verbatim>\<open>NaN\<close>. At offset 0 the
  position passes the range check, \<^verbatim>\<open>yPixel / chartHeight\<close> is \<^verbatim>\<open>0 / 0\<close>, and
  \<^verbatim>\<open>NaN\<close> is stored.
\<close>

theorem drag_zero_height_stores_NaN:
  "contractedCapacity (handleMouseMove draggingState (Fin 100) (Fin 0) (Fin 100)) = NaN"
  by (simp add: handleMouseMove_def draggingState_def onMouseDown_def initialState_def js_ge_def
      Let_def signed_inf_def Math_max_def Math_min_def js_sub_def)

text \<open>
  At every other offset the move is ignored.
\<close>

lemma drag_zero_height_elsewhere:
  "y \<noteq> t \<Longrightarrow> handleMouseMove st (Fin t) (Fin 0) (Fin y) = st"
  by (auto simp: handleMouseMove_def js_ge_def)

section \<open>Multiples of 10\<close>

text \<open>
  Claim C8. Every contracted capacity produced by the drag or by the optimizer should be
  a multiple of 10. The value stored by the drag over a chart of height 0, at offset 0,
  is not.
\<close>

theorem drag_zero_height_not_multiple_of_10:
  "\<not> isMultipleOf10 (contractedCapacity (handleMouseMove draggingState (Fin 100) (Fin 0) (Fin 100)))"
  by (simp add: handleMouseMove_def draggingState_def onMouseDown_def initialState_def js_ge_def
      Let_def signed_inf_def Math_max_def Math_min_def js_sub_def)

text \<open>
  For a chart of positive height the drag stores a multiple of 10, and the optimizer
  always does.
\<close>

lemma isMultipleOf10_of_int: "isMultipleOf10 (Fin (of_int k * 10))"
  by simp

lemma isMultipleOf10_dvd:
  assumes "10 dvd k"
  shows "isMultipleOf10 (Fin (of_int k))"
proof -
  from assms obtain j where "k = j * 10" by (auto elim: dvdE)
  then have "Fin (of_int k) = Fin (of_int j * 10)" by simp
  then show ?thesis by (simp only: isMultipleOf10_of_int)
qed

lemma clamp_times_10:
  "max 1000 (min 4000 (real_of_int n * 10)) = of_int (max 100 (min 400 n)) * 10"
proof -
  consider "n \<le> 100" | "100 < n" "n < 400" | "400 \<le> n" by linarith
  then show ?thesis
  proof cases
    case 1
    then have "real_of_int n \<le> 100" by simp
    with 1 show ?thesis by (simp add: max_def min_def)
  next
    case 2
    then have "100 < real_of_int n" "real_of_int n < 400" by simp_all
    with 2 show ?thesis by (simp add: max_def min_def)
  next
    case 3
    then have "400 \<le> real_of_int n" by simp
    with 3 show ?thesis by (simp add: max_def min_def)
  qed
qed

lemma drag_multiple_of_10:
  assumes "isDragging st" and "0 < h" and "0 \<le> y - t" and "y - t \<le> h"
  shows "isMultipleOf10 (contractedCapacity (handleMouseMove st (Fin t) (Fin h) (Fin y)))"
proof -
  have "contractedCapacity (handleMouseMove st (Fin t) (Fin h) (Fin y)) =
        Fin (max 1000 (min 4000 (of_int \<lfloor>(1 - (y - t) / h) * 4000 / 10 + 1 / 2\<rfloor> * 10)))"
    using assms by (simp add: handleMouseMove_Fin)
  then show ?thesis
    by (simp only: clamp_times_10 isMultipleOf10_of_int)
qed

lemma loop_multiple_of_10:
  "10 dvd capacity \<Longrightarrow> 10 dvd opt \<Longrightarrow>
   10 dvd findOptimalCapacity_loop demands battery capacity opt minCost"
proof (induction demands battery capacity opt minCost rule: findOptimalCapacity_loop.induct)
  case (1 demands battery capacity opt minCost)
  show ?case
  proof (cases "capacity \<le> 4000")
    case False
    with "1.prems" show ?thesis
      by (subst findOptimalCapacity_loop.simps) simp
  next
    case True
    from "1.prems" have next_cap: "10 dvd capacity + 10" by simp
    show ?thesis
    proof (cases "js_lt (calculateTotalCharge_b64 demands battery (Fin (of_int capacity))) minCost")
      case lt: True
      from "1.IH"(1)[OF True lt next_cap "1.prems"(1)] True lt show ?thesis
        by (subst findOptimalCapacity_loop.simps) simp
    next
      case nlt: False
      from "1.IH"(2)[OF True nlt next_cap "1.prems"(2)] True nlt show ?thesis
        by (subst findOptimalCapacity_loop.simps) simp
    qed
  qed
qed

lemma optimizer_multiple_of_10:
  "isMultipleOf10 (contractedCapacity (handleSetOptimalCapacity demands st))"
  by (simp add: handleSetOptimalCapacity_def findOptimalCapacity_def loop_multiple_of_10
      isMultipleOf10_dvd del: isMultipleOf10.simps)

section \<open>Manual edits\<close>

text \<open>
  Claim C9. After a manual edit the state should satisfy the bounds and the step. The
  initial state does; after typing 5000 or 3105 into the contracted capacity input, or
  1500 into the battery capacity input, the stored value is the typed one and the state
  does not.
\<close>

theorem manual_edit_breaks_invariant:
  "boundsAndStepInvariant initialState \<and>
   contractedCapacity (onChangeContractedCapacity initialState (Fin 5000)) = Fin 5000 \<and>
   \<not> boundsAndStepInvariant (onChangeContractedCapacity initialState (Fin 5000)) \<and>
   \<not> boundsAndStepInvariant (onChangeContractedCapacity initialState (Fin 3105)) \<and>
   \<not> boundsAndStepInvariant (onChangeBatteryCapacity initialState (Fin 1500))"
  by (simp add: boundsAndStepInvariant_def initialState_def onChangeContractedCapacity_def
      onChangeBatteryCapacity_def)

section \<open>The optimizer does not read the contracted capacity\<close>

text \<open>
  Claim C10. Two states with the same battery capacity get the same contracted capacity
  from the optimizer, whatever their contracted capacities were.
\<close>

theorem optimizer_ignores_contractedCapacity:
  "batteryCapacity st1 = batteryCapacity st2 \<Longrightarrow>
   contractedCapacity (handleSetOptimalCapacity demands st1) =
   contractedCapacity (handleSetOptimalCapacity demands st2)"
  by (simp add: handleSetOptimalCapacity_def)

text \<open>
  The initial state and the initial state with contracted capacity 2000.
\<close>

theorem optimizer_ignores_contractedCapacity_witness:
  "batteryCapacity initialState = batteryCapacity (initialState\<lparr>contractedCapacity := Fin 2000\<rparr>) \<and>
   contractedCapacity initialState \<noteq> contractedCapacity (initialState\<lparr>contractedCapacity := Fin 2000\<rparr>) \<and>
   contractedCapacity (handleSetOptimalCapacity maxDemands initialState) =
   contractedCapacity (handleSetOptimalCapacity maxDemands (initialState\<lparr>contractedCapacity := Fin 2000\<rparr>))"
proof -
  have h: "batteryCapacity initialState = batteryCapacity (initialState\<lparr>contractedCapacity := Fin 2000\<rparr>)"
    by simp
  show ?thesis
    using h optimizer_ignores_contractedCapacity[OF h, of maxDemands]
    by (simp add: initialState_def)
qed

end
